theory Spec2Isabelle
  imports Main "HOL-Library.Sublist"
begin

section \<open>Data model of \<^verbatim>\<open>src/App.js\<close>\<close>

text \<open>
  A fetched user object. The handlers read \<^verbatim>\<open>item.id\<close>, \<^verbatim>\<open>item.username\<close> and
  \<^verbatim>\<open>item.email\<close>; \<^verbatim>\<open>callAPI\<close> writes \<^verbatim>\<open>item.selected\<close> on the copied objects. The
  property \<^verbatim>\<open>selected\<close> may be absent on an object, which is \<open>None\<close> here. Further
  properties of the fetched JSON are never read by the component and are left out.
\<close>

record item =
  item_id :: int
  username :: string
  email :: string
  selected :: "bool option"

subsection \<open>The JavaScript \<^verbatim>\<open>Set\<close> of ids\<close>

text \<open>
  A \<^verbatim>\<open>Set\<close> keeps its elements in insertion order without duplicates; it is a list here.
  \<^verbatim>\<open>add\<close> appends an element that is not yet there, \<^verbatim>\<open>delete\<close> removes it,
  \<^verbatim>\<open>has\<close> tests membership and \<^verbatim>\<open>size\<close> counts the elements.
\<close>

type_synonym idset = "int list"

definition Set_has :: "idset \<Rightarrow> int \<Rightarrow> bool" where
  "Set_has S x = (x \<in> set S)"

definition Set_add :: "idset \<Rightarrow> int \<Rightarrow> idset" where
  "Set_add S x = (if Set_has S x then S else S @ [x])"

definition Set_delete :: "idset \<Rightarrow> int \<Rightarrow> idset" where
  "Set_delete S x = removeAll x S"

definition Set_size :: "idset \<Rightarrow> nat" where
  "Set_size S = length S"

subsection \<open>Strings: \<^verbatim>\<open>toLowerCase\<close> and \<^verbatim>\<open>includes\<close>\<close>

text \<open>
  \<^verbatim>\<open>String.prototype.toLowerCase\<close> belongs to the language, not to the source, and it
  folds the letters of every script. The handlers below take it as a parameter \<open>lc\<close>, and
  what is proved of them holds for every function \<open>lc\<close>.

  Where a handler is evaluated on sample records, \<open>lc\<close> is the function below: what
  \<^verbatim>\<open>toLowerCase\<close> does on a string of ASCII characters, A to Z becoming a to z. It is
  applied to the ASCII strings of the samples only; it says nothing of other characters.
\<close>

definition lower_ascii_char :: "char \<Rightarrow> char" where
  "lower_ascii_char c =
     (let n = (of_char c :: int) in if 65 \<le> n \<and> n \<le> 90 then char_of (n + 32) else c)"

definition toLowerCase_ascii :: "string \<Rightarrow> string" where
  "toLowerCase_ascii s = map lower_ascii_char s"

text \<open>\<^verbatim>\<open>s.includes(q)\<close>: the string \<open>q\<close> starts at some position of \<open>s\<close>.\<close>

fun str_includes :: "string \<Rightarrow> string \<Rightarrow> bool" where
  "str_includes [] q = (q = [])"
| "str_includes (c # cs) q = (prefix q (c # cs) \<or> str_includes cs q)"

subsection \<open>The component's state\<close>

text \<open>The five \<^verbatim>\<open>useState\<close> cells of \<^verbatim>\<open>App\<close>.\<close>

record app_state =
  data :: "item list"
  searchInput :: string
  searchedData :: "item list"
  showDelete :: bool
  selectedIds :: idset

definition init_state :: app_state where
  "init_state = \<lparr>data = [], searchInput = [], searchedData = [], showDelete = False,
     selectedIds = []\<rparr>"

section \<open>The handlers\<close>

text \<open>
  Each handler reads the state of the render it was created in and calls the setters;
  the model returns the state of the next render.
\<close>

definition handleCheckBox :: "int \<Rightarrow> app_state \<Rightarrow> app_state" where
  "handleCheckBox i s =
     (let newSelectedIds = selectedIds s;
          newSelectedIds = (if Set_has newSelectedIds i then Set_delete newSelectedIds i
                            else Set_add newSelectedIds i)
      in s\<lparr>selectedIds := newSelectedIds\<rparr>)"

definition handleDeleteClick :: "app_state \<Rightarrow> app_state" where
  "handleDeleteClick s =
     (let remainingNames = filter (\<lambda>it. \<not> Set_has (selectedIds s) (item_id it)) (searchedData s)
      in s\<lparr>searchedData := remainingNames, selectedIds := []\<rparr>)"

text \<open>The callback of \<^verbatim>\<open>searchedData.filter\<close>; \<open>lc\<close> is \<^verbatim>\<open>toLowerCase\<close>.\<close>

definition matches :: "(string \<Rightarrow> string) \<Rightarrow> string \<Rightarrow> item \<Rightarrow> bool" where
  "matches lc v it =
     (str_includes (lc (username it)) (lc v) \<or>
      str_includes (lc (email it)) (lc v))"

text \<open>
  \<open>s\<close> is the state of the render whose \<^verbatim>\<open>handleSearchChange\<close> is called: the function
  reads that render's \<^verbatim>\<open>data\<close> and \<^verbatim>\<open>searchedData\<close>.
\<close>

definition handleSearchChange :: "(string \<Rightarrow> string) \<Rightarrow> string \<Rightarrow> app_state \<Rightarrow> app_state" where
  "handleSearchChange lc v s =
     (if v = [] then s\<lparr>searchedData := data s\<rparr>
      else let filteredData = filter (matches lc v) (searchedData s)
           in s\<lparr>searchedData := filteredData\<rparr>)"

text \<open>The effect on \<^verbatim>\<open>[selectedIds]\<close>.\<close>

definition showDeleteEffect :: "app_state \<Rightarrow> app_state" where
  "showDeleteEffect s = s\<lparr>showDelete := (Set_size (selectedIds s) > 0)\<rparr>"

text \<open>
  \<^verbatim>\<open>callAPI\<close> once the fetch has returned \<open>result\<close>: the state keeps \<open>result\<close> as
  \<^verbatim>\<open>data\<close>, and a copy of it, with \<^verbatim>\<open>selected = false\<close> written on every object, as
  \<^verbatim>\<open>searchedData\<close>.
\<close>

definition callAPI :: "item list \<Rightarrow> app_state \<Rightarrow> app_state" where
  "callAPI result s =
     (let resultCopy = map (\<lambda>it. it\<lparr>selected := Some False\<rparr>) result
      in s\<lparr>data := result, searchedData := resultCopy\<rparr>)"

section \<open>Events and renders\<close>

text \<open>
  What can happen to the mounted component from outside: the fetch of \<^verbatim>\<open>callAPI\<close>
  returns, the text input changes, a checkbox is clicked, the delete control is clicked.
  The handlers of these events are those of the latest render: the input and the delete
  control get the handlers of every render, and \<^verbatim>\<open>handleCheckBox\<close> is made anew whenever
  \<^verbatim>\<open>selectedIds\<close>, the one cell it reads, has changed. \<open>handler\<close> gives the state cells
  an event's handler sets. For the input that is \<^verbatim>\<open>setSearchInput\<close>; the call of
  \<^verbatim>\<open>debouncedHandleSearchChange\<close> and the timers, whose callbacks are closures of earlier
  renders, come with the event loop below.
\<close>

datatype event =
  FetchDone "item list"
| InputChange string
| CheckBox int
| DeleteClick

fun handler :: "event \<Rightarrow> app_state \<Rightarrow> app_state" where
  "handler (FetchDone result) s = callAPI result s"
| "handler (InputChange v) s = s\<lparr>searchInput := v\<rparr>"
| "handler (CheckBox i) s = handleCheckBox i s"
| "handler DeleteClick s = handleDeleteClick s"

text \<open>
  The effect that sets \<^verbatim>\<open>showDelete\<close> has the dependency list \<^verbatim>\<open>[selectedIds]\<close>: React
  runs it after the first render and after every render in which \<^verbatim>\<open>selectedIds\<close> is a
  new object. \<^verbatim>\<open>handleCheckBox\<close> and \<^verbatim>\<open>handleDeleteClick\<close> install a new \<^verbatim>\<open>Set\<close>; no
  other handler calls \<^verbatim>\<open>setSelectedIds\<close>.
\<close>

fun sets_selectedIds :: "event \<Rightarrow> bool" where
  "sets_selectedIds (CheckBox i) = True"
| "sets_selectedIds DeleteClick = True"
| "sets_selectedIds ev = False"

text \<open>
  The renders an event produces: the one with the handler's updates and, when the effect
  runs, the one after \<^verbatim>\<open>setShowDelete\<close>.
\<close>

definition frames :: "event \<Rightarrow> app_state \<Rightarrow> app_state list" where
  "frames ev s =
     (if sets_selectedIds ev then [handler ev s, showDeleteEffect (handler ev s)]
      else [handler ev s])"

definition step :: "event \<Rightarrow> app_state \<Rightarrow> app_state" where
  "step ev s = last (frames ev s)"

text \<open>The state after the first render and its effects.\<close>

definition mounted :: app_state where
  "mounted = showDeleteEffect init_state"

text \<open>A record without its \<^verbatim>\<open>selected\<close> property.\<close>

definition unselected :: "item \<Rightarrow> item" where
  "unselected it = it\<lparr>selected := None\<rparr>"

text \<open>The visible list, \<^verbatim>\<open>selected\<close> left aside, is a subsequence of the base list.\<close>

definition sub_base :: "item list \<Rightarrow> item list \<Rightarrow> bool" where
  "sub_base base xs = subseq (map unselected xs) (map unselected base)"

section \<open>Objects on the heap\<close>

text \<open>
  Where a property is about which object is written, objects live in a heap, a list
  indexed by address, and a variable holds an address.
\<close>

type_synonym addr = nat

subsection \<open>\<^verbatim>\<open>handleCheckBox\<close> on \<^verbatim>\<open>Set\<close> objects\<close>

text \<open>\<^verbatim>\<open>new Set(iterable)\<close> allocates a set with the elements of the iterable.\<close>

definition new_Set :: "idset \<Rightarrow> idset list \<Rightarrow> addr \<times> idset list" where
  "new_Set S h = (length h, h @ [S])"

text \<open>
  \<open>sel\<close> is the address held by the state cell \<^verbatim>\<open>selectedIds\<close>; the result is the
  address given to \<^verbatim>\<open>setSelectedIds\<close> and the heap after the call.
\<close>

definition handleCheckBox_heap :: "int \<Rightarrow> addr \<Rightarrow> idset list \<Rightarrow> addr \<times> idset list" where
  "handleCheckBox_heap i sel h =
     (let (newSelectedIds, h1) = new_Set (h ! sel) h;
          h2 = (if Set_has (h1 ! newSelectedIds) i
                then h1[newSelectedIds := Set_delete (h1 ! newSelectedIds) i]
                else h1[newSelectedIds := Set_add (h1 ! newSelectedIds) i])
      in (newSelectedIds, h2))"

subsection \<open>\<^verbatim>\<open>callAPI\<close> on record objects\<close>

text \<open>
  \<^verbatim>\<open>JSON.parse(JSON.stringify(result))\<close> builds a new array of new objects with the
  properties of the old ones. An array is the list of the addresses of its elements.
\<close>

definition JSON_copy :: "addr list \<Rightarrow> item list \<Rightarrow> addr list \<times> item list" where
  "JSON_copy rs h = ([length h ..< length h + length rs], h @ map (\<lambda>r. h ! r) rs)"

text \<open>\<^verbatim>\<open>resultCopy.forEach((item) => { item.selected = false })\<close>\<close>

fun forEach_selected :: "addr list \<Rightarrow> item list \<Rightarrow> item list" where
  "forEach_selected [] h = h"
| "forEach_selected (a # as) h = forEach_selected as (h[a := (h ! a)\<lparr>selected := Some False\<rparr>])"

text \<open>
  The result is the array given to \<^verbatim>\<open>setData\<close>, the array given to
  \<^verbatim>\<open>setSearchedData\<close>, and the heap.
\<close>

definition callAPI_heap :: "addr list \<Rightarrow> item list \<Rightarrow> addr list \<times> addr list \<times> item list" where
  "callAPI_heap result h =
     (let (resultCopy, h1) = JSON_copy result h;
          h2 = forEach_selected resultCopy h1
      in (result, resultCopy, h2))"

section \<open>Timers and \<^verbatim>\<open>debounce\<close>\<close>

text \<open>
  Time is counted in milliseconds. A pending timer has the id \<^verbatim>\<open>setTimeout\<close> returned,
  the time at which it is due and its callback. \<^verbatim>\<open>clearTimeout\<close> removes the timer with
  the given id and does nothing for \<^verbatim>\<open>undefined\<close> (\<open>None\<close>) or an id that is not pending.
\<close>

record 'a timer =
  tid :: nat
  due :: nat
  callback :: 'a

record 'a event_loop =
  timers :: "'a timer list"
  nextId :: nat

definition setTimeout :: "'a \<Rightarrow> nat \<Rightarrow> nat \<Rightarrow> 'a event_loop \<Rightarrow> nat \<times> 'a event_loop" where
  "setTimeout cb delay now L =
     (nextId L,
      L\<lparr>timers := timers L @ [\<lparr>tid = nextId L, due = now + delay, callback = cb\<rparr>],
        nextId := Suc (nextId L)\<rparr>)"

fun clearTimeout :: "nat option \<Rightarrow> 'a event_loop \<Rightarrow> 'a event_loop" where
  "clearTimeout None L = L"
| "clearTimeout (Some i) L = L\<lparr>timers := filter (\<lambda>t. tid t \<noteq> i) (timers L)\<rparr>"

text \<open>
  The function \<^verbatim>\<open>debounce(func, delay)\<close> returns, called with \<open>args\<close> at time \<open>now\<close>.
  Its first argument pairs the closure's variable \<^verbatim>\<open>debounceTimer\<close> with the event loop.
  The callback \<^verbatim>\<open>() => func(...args)\<close> is kept as \<open>args\<close>.
\<close>

definition debounced ::
  "nat \<Rightarrow> 'a \<Rightarrow> nat \<Rightarrow> nat option \<times> 'a event_loop \<Rightarrow> nat option \<times> 'a event_loop" where
  "debounced delay args now c =
     (let L1 = clearTimeout (fst c) (snd c);
          (i, L2) = setTimeout args delay now L1
      in (Some i, L2))"

text \<open>The timers due at time \<open>now\<close>, in the order in which they run, and the others.\<close>

definition due_timers :: "nat \<Rightarrow> 'a event_loop \<Rightarrow> 'a timer list" where
  "due_timers now L = sort_key due (filter (\<lambda>t. due t \<le> now) (timers L))"

definition drop_due :: "nat \<Rightarrow> 'a event_loop \<Rightarrow> 'a event_loop" where
  "drop_due now L = L\<lparr>timers := filter (\<lambda>t. now < due t) (timers L)\<rparr>"

subsection \<open>One debounced function, called several times\<close>

record 'a dstate =
  debounceTimer :: "nat option"
  evloop :: "'a event_loop"
  fired :: "(nat \<times> 'a) list"

definition dinit :: "'a dstate" where
  "dinit = \<lparr>debounceTimer = None, evloop = \<lparr>timers = [], nextId = 1\<rparr>, fired = []\<rparr>"

text \<open>Time passes until \<open>now\<close>: the timers that are due call \<^verbatim>\<open>func\<close>.\<close>

definition tick :: "nat \<Rightarrow> 'a dstate \<Rightarrow> 'a dstate" where
  "tick now D =
     D\<lparr>evloop := drop_due now (evloop D),
       fired := fired D @ map (\<lambda>t. (due t, callback t)) (due_timers now (evloop D))\<rparr>"

definition call :: "nat \<Rightarrow> nat \<times> 'a \<Rightarrow> 'a dstate \<Rightarrow> 'a dstate" where
  "call delay c D =
     (let D1 = tick (fst c) D;
          (t, L) = debounced delay (snd c) (fst c) (debounceTimer D1, evloop D1)
      in D1\<lparr>debounceTimer := t, evloop := L\<rparr>)"

definition calls :: "nat \<Rightarrow> (nat \<times> 'a) list \<Rightarrow> 'a dstate \<Rightarrow> 'a dstate" where
  "calls delay cs D = foldl (\<lambda>D c. call delay c D) D cs"

text \<open>No further call arrives: every pending timer runs.\<close>

definition settle :: "'a dstate \<Rightarrow> 'a dstate" where
  "settle D =
     D\<lparr>evloop := (evloop D)\<lparr>timers := []\<rparr>,
       fired := fired D @ map (\<lambda>t. (due t, callback t)) (sort_key due (timers (evloop D)))\<rparr>"

text \<open>Calls in the order of their times, each less than \<open>delay\<close> after the one before.\<close>

fun burst :: "nat \<Rightarrow> (nat \<times> 'a) list \<Rightarrow> bool" where
  "burst delay [] = True"
| "burst delay [c] = True"
| "burst delay (c # c' # cs) =
     (fst c \<le> fst c' \<and> fst c' < fst c + delay \<and> burst delay (c' # cs))"

text \<open>Nothing has run yet and exactly one timer is pending, for the call \<open>a\<close> made at \<open>t\<close>.\<close>

definition one_pending :: "nat \<Rightarrow> 'a dstate \<Rightarrow> nat \<Rightarrow> 'a \<Rightarrow> bool" where
  "one_pending delay D t a =
     (fired D = [] \<and>
      (\<exists>i. debounceTimer D = Some i \<and>
           timers (evloop D) = [\<lparr>tid = i, due = t + delay, callback = a\<rparr>]))"

subsection \<open>The debounced function inside \<^verbatim>\<open>App\<close>\<close>

text \<open>
  \<^verbatim>\<open>const debouncedHandleSearchChange = debounce(handleSearchChange, 300)\<close> is a statement
  of the body of \<^verbatim>\<open>App\<close>, outside any hook: every render runs it and gets a new closure,
  whose \<^verbatim>\<open>debounceTimer\<close> is \<^verbatim>\<open>undefined\<close> and whose \<^verbatim>\<open>func\<close> is the
  \<^verbatim>\<open>handleSearchChange\<close> of that render, reading that render's \<^verbatim>\<open>data\<close> and
  \<^verbatim>\<open>searchedData\<close>. A callback is kept as the state of the render that made it and the
  argument. \<^verbatim>\<open>executions\<close> lists the calls of \<^verbatim>\<open>handleSearchChange\<close>: time and argument.

  The effect that calls \<^verbatim>\<open>callAPI\<close> has the empty dependency list: it runs after the
  first render only, so one fetch is issued and it returns at most once. \<open>fetching\<close>
  says that it has not returned yet.
\<close>

record app_rt =
  hooks :: app_state
  cur_debounceTimer :: "nat option"
  pending :: "(app_state \<times> string) event_loop"
  executions :: "(nat \<times> string) list"
  fetching :: bool

definition rt_init :: app_rt where
  "rt_init = \<lparr>hooks = mounted, cur_debounceTimer = None, pending = \<lparr>timers = [], nextId = 1\<rparr>,
     executions = [], fetching = True\<rparr>"

definition render :: "app_rt \<Rightarrow> app_rt" where
  "render R = R\<lparr>cur_debounceTimer := None\<rparr>"

text \<open>
  A timer runs \<^verbatim>\<open>handleSearchChange(value)\<close> of the render \<open>snap\<close>: it computes the list
  from \<open>snap\<close> and gives it to \<^verbatim>\<open>setSearchedData\<close>, and the component renders again.
\<close>

definition fire ::
  "(string \<Rightarrow> string) \<Rightarrow> (app_state \<times> string) timer \<Rightarrow> app_rt \<Rightarrow> app_rt" where
  "fire lc t R =
     (case callback t of (snap, v) \<Rightarrow>
        render (R\<lparr>hooks := (hooks R)\<lparr>searchedData := searchedData (handleSearchChange lc v snap)\<rparr>,
                 executions := executions R @ [(due t, v)]\<rparr>))"

text \<open>Time passes until \<open>now\<close>: the timers due by then run, in their order.\<close>

definition advance :: "(string \<Rightarrow> string) \<Rightarrow> nat \<Rightarrow> app_rt \<Rightarrow> app_rt" where
  "advance lc now R =
     foldl (\<lambda>R t. fire lc t R) (R\<lparr>pending := drop_due now (pending R)\<rparr>)
       (due_timers now (pending R))"

text \<open>
  \<^verbatim>\<open>handleInputChange\<close> with \<^verbatim>\<open>e.target.value = v\<close> at time \<open>now\<close>. \<^verbatim>\<open>setSearchInput\<close>
  with a value other than the current one makes the component render again; with the
  same value React keeps the render.
\<close>

definition handleInputChange :: "string \<Rightarrow> nat \<Rightarrow> app_rt \<Rightarrow> app_rt" where
  "handleInputChange v now R =
     (let (t, L) = debounced 300 (hooks R, v) now (cur_debounceTimer R, pending R);
          R' = R\<lparr>hooks := (hooks R)\<lparr>searchInput := v\<rparr>, cur_debounceTimer := t, pending := L\<rparr>
      in if v = searchInput (hooks R) then R' else render R')"

text \<open>
  An event at time \<open>now\<close>. A change of the input is \<^verbatim>\<open>handleInputChange\<close>. The other
  handlers set state cells, the effects run, and the component renders again. The fetch
  returns only while it is awaited.
\<close>

fun act :: "nat \<Rightarrow> event \<Rightarrow> app_rt \<Rightarrow> app_rt" where
  "act now (InputChange v) R = handleInputChange v now R"
| "act now (FetchDone result) R =
     (if fetching R then render (R\<lparr>hooks := step (FetchDone result) (hooks R), fetching := False\<rparr>)
      else R)"
| "act now ev R = render (R\<lparr>hooks := step ev (hooks R)\<rparr>)"

text \<open>
  The component after a list of events, each with its time: before an event is handled,
  the timers due by its time have run.
\<close>

definition run :: "(string \<Rightarrow> string) \<Rightarrow> (nat \<times> event) list \<Rightarrow> app_rt" where
  "run lc evs = foldl (\<lambda>R e. act (fst e) (snd e) (advance lc (fst e) R)) rt_init evs"

text \<open>
  The lists a pending callback will read are, \<^verbatim>\<open>selected\<close> left aside, subsequences of
  the list \<open>base\<close>.
\<close>

definition snap_ok :: "item list \<Rightarrow> (app_state \<times> string) timer \<Rightarrow> bool" where
  "snap_ok base t =
     (sub_base base (searchedData (fst (callback t))) \<and> sub_base base (data (fst (callback t))))"

definition rt_inv :: "app_rt \<Rightarrow> bool" where
  "rt_inv R =
     (sub_base (data (hooks R)) (searchedData (hooks R)) \<and>
      (\<forall>t \<in> set (timers (pending R)). snap_ok (data (hooks R)) t) \<and>
      (fetching R \<longrightarrow> data (hooks R) = []))"

text \<open>Two sample records.\<close>

definition user1 :: item where
  "user1 = \<lparr>item_id = 1, username = ''Bret'', email = ''Sincere@april.biz'', selected = None\<rparr>"

definition user2 :: item where
  "user2 = \<lparr>item_id = 2, username = ''Antonette'', email = ''Shanna@melissa.tv'', selected = None\<rparr>"

section \<open>Properties\<close>

lemmas eval_defs = step_def frames_def mounted_def init_state_def showDeleteEffect_def
  callAPI_def handleCheckBox_def handleDeleteClick_def handleSearchChange_def
  Set_has_def Set_add_def Set_delete_def Set_size_def user1_def user2_def
  matches_def toLowerCase_ascii_def lower_ascii_char_def char_of_def Let_def

lemmas timer_defs = setTimeout_def debounced_def due_timers_def drop_due_def

lemmas run_defs = run_def rt_init_def advance_def fire_def render_def handleInputChange_def
  timer_defs

subsection \<open>Search\<close>

lemma includes_iff_sublist: "str_includes s q \<longleftrightarrow> sublist q s"
  by (induction s) (auto simp: sublist_Cons_right)

lemma matches_iff:
  "matches lc v it \<longleftrightarrow> sublist (lc v) (lc (username it)) \<or> sublist (lc v) (lc (email it))"
  by (simp add: matches_def includes_iff_sublist)

text \<open>
  C6. For a non-empty query \<open>v\<close>, \<^verbatim>\<open>handleSearchChange\<close> sets the visible list to the
  records of the current visible list whose lower-cased \<^verbatim>\<open>username\<close> or \<^verbatim>\<open>email\<close>
  contains the lower-cased query as a contiguous substring, \<open>lc\<close> being \<^verbatim>\<open>toLowerCase\<close>.
  The result is a \<open>filter\<close> of the current visible list, so nothing is ranked or
  reordered, and no other cell of the state changes.
\<close>

theorem handleSearchChange_filters_visible:
  "v \<noteq> [] \<Longrightarrow>
   searchedData (handleSearchChange lc v s) =
     filter (\<lambda>it. sublist (lc v) (lc (username it)) \<or> sublist (lc v) (lc (email it)))
       (searchedData s) \<and>
   subseq (searchedData (handleSearchChange lc v s)) (searchedData s) \<and>
   handleSearchChange lc v s = s\<lparr>searchedData := searchedData (handleSearchChange lc v s)\<rparr>"
  by (simp add: handleSearchChange_def matches_iff [abs_def])

text \<open>The query \<^verbatim>\<open>RE\<close> on the two fetched sample records keeps \<^verbatim>\<open>Bret\<close> only.\<close>

theorem handleSearchChange_filters_visible_witness:
  "''RE'' \<noteq> [] \<and>
   searchedData (handleSearchChange toLowerCase_ascii ''RE''
       (hooks (run toLowerCase_ascii [(0, FetchDone [user1, user2])]))) =
     [user1\<lparr>selected := Some False\<rparr>] \<and>
   subseq [user1\<lparr>selected := Some False\<rparr>]
     (searchedData (hooks (run toLowerCase_ascii [(0, FetchDone [user1, user2])])))"
proof -
  have ne: "''RE'' \<noteq> []" by simp
  have ev: "searchedData (handleSearchChange toLowerCase_ascii ''RE''
       (hooks (run toLowerCase_ascii [(0, FetchDone [user1, user2])]))) =
     [user1\<lparr>selected := Some False\<rparr>]"
    by (simp add: run_defs eval_defs)
  show ?thesis
    using handleSearchChange_filters_visible [OF ne, of toLowerCase_ascii
        "hooks (run toLowerCase_ascii [(0, FetchDone [user1, user2])])"] ne ev
    by simp
qed

text \<open>
  C7. Calling \<^verbatim>\<open>handleSearchChange\<close> with the empty string sets the visible list to the
  base list as it is, whatever the visible list was before, and changes no other cell.
\<close>

theorem handleSearchChange_empty_resets:
  "searchedData (handleSearchChange lc [] s) = data s \<and>
   handleSearchChange lc [] s = s\<lparr>searchedData := data s\<rparr>"
  by (simp add: handleSearchChange_def)
subsection \<open>The visible list and the base list\<close>

lemma run_snoc: "run lc (evs @ [e]) = act (fst e) (snd e) (advance lc (fst e) (run lc evs))"
  by (simp add: run_def)

lemma step_cells:
  "data (step ev s) = data (handler ev s)"
  "searchedData (step ev s) = searchedData (handler ev s)"
  "selectedIds (step ev s) = selectedIds (handler ev s)"
  by (simp_all add: step_def frames_def showDeleteEffect_def)

lemma sub_base_refl [simp]: "sub_base xs xs"
  by (simp add: sub_base_def)

lemma sub_base_Nil [simp]: "sub_base base []"
  by (simp add: sub_base_def)

lemma sub_base_filter: "sub_base base xs \<Longrightarrow> sub_base base (filter P xs)"
proof -
  assume a: "sub_base base xs"
  have "subseq (map unselected (filter P xs)) (map unselected xs)"
    by (simp add: subseq_map)
  with a show ?thesis
    unfolding sub_base_def by (blast intro: subseq_order.trans)
qed

lemma sub_base_empty: "sub_base [] xs \<Longrightarrow> xs = []"
  by (cases xs) (simp_all add: sub_base_def)

lemma sub_base_copy: "sub_base result (map (\<lambda>it. it\<lparr>selected := Some False\<rparr>) result)"
proof -
  have "map unselected (map (\<lambda>it. it\<lparr>selected := Some False\<rparr>) result) = map unselected result"
    by (simp add: unselected_def)
  then show ?thesis by (simp add: sub_base_def del: map_map)
qed

text \<open>A timer that runs reads lists that come from the base list, and so keeps \<open>rt_inv\<close>.\<close>

lemma fire_inv:
  assumes "rt_inv R" and "snap_ok (data (hooks R)) t"
  shows "rt_inv (fire lc t R)"
  using assms
  by (cases "callback t")
    (auto simp: rt_inv_def snap_ok_def fire_def render_def handleSearchChange_def Let_def
      sub_base_filter)

lemma fire_data: "data (hooks (fire lc t R)) = data (hooks R)"
  by (simp add: fire_def render_def split: prod.split)

lemma fires_inv:
  "rt_inv R \<Longrightarrow> \<forall>t \<in> set ts. snap_ok (data (hooks R)) t \<Longrightarrow>
   rt_inv (foldl (\<lambda>R t. fire lc t R) R ts)"
proof (induction ts arbitrary: R)
  case Nil
  then show ?case by simp
next
  case (Cons t ts)
  from Cons.prems have "rt_inv (fire lc t R)" by (simp add: fire_inv)
  moreover from Cons.prems have "\<forall>u \<in> set ts. snap_ok (data (hooks (fire lc t R))) u"
    by (simp add: fire_data)
  ultimately show ?case using Cons.IH by simp
qed

lemma advance_inv: "rt_inv R \<Longrightarrow> rt_inv (advance lc now R)"
proof -
  assume a: "rt_inv R"
  let ?R = "R\<lparr>pending := drop_due now (pending R)\<rparr>"
  from a have "rt_inv ?R" by (simp add: rt_inv_def drop_due_def)
  moreover from a have "\<forall>t \<in> set (due_timers now (pending R)). snap_ok (data (hooks ?R)) t"
    by (simp add: rt_inv_def due_timers_def)
  ultimately show ?thesis unfolding advance_def by (rule fires_inv)
qed

lemma clearTimeout_subset: "set (timers (clearTimeout c L)) \<subseteq> set (timers L)"
  by (cases c) auto

text \<open>The new timer's callback is a closure of the current render.\<close>

lemma handleInputChange_inv: "rt_inv R \<Longrightarrow> rt_inv (handleInputChange v now R)"
  using clearTimeout_subset [of "cur_debounceTimer R" "pending R"]
  by (auto simp: rt_inv_def snap_ok_def handleInputChange_def render_def timer_defs Let_def
      split: prod.split)

text \<open>Callbacks made before the fetch returned read empty lists.\<close>

lemma fetch_inv:
  assumes "rt_inv R" and "fetching R"
  shows "rt_inv (render (R\<lparr>hooks := step (FetchDone result) (hooks R), fetching := False\<rparr>))"
proof -
  from assms have e: "data (hooks R) = []" by (simp add: rt_inv_def)
  have "snap_ok result t" if "t \<in> set (timers (pending R))" for t
  proof -
    from assms(1) that have "snap_ok [] t" by (simp add: rt_inv_def e)
    then have "searchedData (fst (callback t)) = []" "data (fst (callback t)) = []"
      by (simp_all add: snap_ok_def sub_base_empty)
    then show ?thesis by (simp add: snap_ok_def)
  qed
  then show ?thesis
    by (simp add: rt_inv_def render_def step_cells callAPI_def sub_base_copy)
qed

lemma act_inv: "rt_inv R \<Longrightarrow> rt_inv (act now ev R)"
proof (cases ev)
  case (FetchDone result)
  assume "rt_inv R"
  then show ?thesis using FetchDone by (simp add: fetch_inv)
next
  case (InputChange v)
  assume "rt_inv R"
  then show ?thesis using InputChange by (simp add: handleInputChange_inv)
next
  case (CheckBox i)
  assume "rt_inv R"
  then show ?thesis using CheckBox
    by (simp add: rt_inv_def render_def step_cells handleCheckBox_def Let_def)
next
  case DeleteClick
  assume "rt_inv R"
  then show ?thesis using DeleteClick
    by (simp add: rt_inv_def render_def step_cells handleDeleteClick_def Let_def sub_base_filter)
qed

lemma run_inv: "rt_inv (run lc evs)"
proof (induction evs rule: rev_induct)
  case Nil
  show ?case
    by (simp add: run_def rt_init_def rt_inv_def mounted_def init_state_def showDeleteEffect_def)
next
  case (snoc e evs)
  then show ?case by (simp add: run_snoc act_inv advance_inv)
qed

text \<open>
  C2, as the code has it. After any list of timed events, and after any time has passed
  since, the visible list, the \<^verbatim>\<open>selected\<close> property left aside, is a subsequence of the
  base list. A timer that runs \<^verbatim>\<open>handleSearchChange\<close> with a non-empty query installs a
  filter of the visible list of the render that set the timer, not of the base list; with
  the empty query it installs the base list of that render.
\<close>

theorem visible_subseq_of_base:
  "subseq (map unselected (searchedData (hooks (run lc evs))))
     (map unselected (data (hooks (run lc evs)))) \<and>
   subseq (map unselected (searchedData (hooks (advance lc now (run lc evs)))))
     (map unselected (data (hooks (advance lc now (run lc evs))))) \<and>
   searchedData (hooks (fire lc t R)) =
     (if snd (callback t) = [] then data (fst (callback t))
      else filter (matches lc (snd (callback t))) (searchedData (fst (callback t))))"
  using run_inv [of lc evs] advance_inv [OF run_inv, of lc now lc evs]
  by (simp add: rt_inv_def sub_base_def fire_def render_def handleSearchChange_def
      split: prod.split)

text \<open>
  The visible list is not the base list filtered by the current query. The input
  changes to \<^verbatim>\<open>an\<close> one second after the fetch and to \<^verbatim>\<open>a\<close> a second later; when both
  timers have run, the visible list holds record 2 only, while records 1 and 2 of the base
  list both match \<^verbatim>\<open>a\<close>. And right after the fetch the visible list, whose records
  carry \<^verbatim>\<open>selected\<close>, is not a subsequence of the base list as it is.
\<close>

theorem narrowing_not_base_filter:
  "searchInput (hooks (advance toLowerCase_ascii 3000 (run toLowerCase_ascii
      [(0, FetchDone [user1, user2]), (1000, InputChange ''an''), (2000, InputChange ''a'')])))
     = ''a'' \<and>
   map item_id (searchedData (hooks (advance toLowerCase_ascii 3000 (run toLowerCase_ascii
      [(0, FetchDone [user1, user2]), (1000, InputChange ''an''), (2000, InputChange ''a'')]))))
     = [2] \<and>
   map item_id (filter (matches toLowerCase_ascii ''a'')
     (data (hooks (advance toLowerCase_ascii 3000 (run toLowerCase_ascii
      [(0, FetchDone [user1, user2]), (1000, InputChange ''an''), (2000, InputChange ''a'')])))))
     = [1, 2] \<and>
   \<not> subseq (searchedData (hooks (run toLowerCase_ascii [(0, FetchDone [user1, user2])])))
        (data (hooks (run toLowerCase_ascii [(0, FetchDone [user1, user2])])))"
  by (simp add: run_defs eval_defs)

text \<open>
  When the two changes are 100 ms apart, the second timer reads the list of the render
  before the first timer ran, and both records are visible in the end.
\<close>

lemma stale_closure_an_a:
  "map item_id (searchedData (hooks (advance toLowerCase_ascii 1000 (run toLowerCase_ascii
      [(0, FetchDone [user1, user2]), (0, InputChange ''an''), (100, InputChange ''a'')])))) =
     [1, 2]"
  by (simp add: run_defs eval_defs)
subsection \<open>Delete\<close>

text \<open>
  C1, as the code has it. \<^verbatim>\<open>handleDeleteClick\<close> keeps in the visible list exactly the
  records whose id is not in the selection, in their order, so no record with a selected
  id is left in the visible list, and it installs an empty selection.
\<close>

theorem handleDeleteClick_removes_selected:
  "searchedData (handleDeleteClick s) =
     filter (\<lambda>it. \<not> Set_has (selectedIds s) (item_id it)) (searchedData s) \<and>
   (\<forall>it \<in> set (searchedData (handleDeleteClick s)). \<not> Set_has (selectedIds s) (item_id it)) \<and>
   selectedIds (handleDeleteClick s) = [] \<and>
   Set_size (selectedIds (handleDeleteClick s)) = 0"
  by (simp add: handleDeleteClick_def Set_size_def)

text \<open>Record 1 is fetched, checked and deleted: record 2 is what stays visible.\<close>

theorem handleDeleteClick_removes_selected_witness:
  "Set_has (selectedIds (hooks (run toLowerCase_ascii
      [(0, FetchDone [user1, user2]), (1, CheckBox 1)]))) (item_id user1) \<and>
   searchedData (handleDeleteClick (hooks (run toLowerCase_ascii
      [(0, FetchDone [user1, user2]), (1, CheckBox 1)]))) =
     [user2\<lparr>selected := Some False\<rparr>] \<and>
   selectedIds (handleDeleteClick (hooks (run toLowerCase_ascii
      [(0, FetchDone [user1, user2]), (1, CheckBox 1)]))) = []"
  using handleDeleteClick_removes_selected
    [of "hooks (run toLowerCase_ascii [(0, FetchDone [user1, user2]), (1, CheckBox 1)])"]
  by (simp add: run_defs eval_defs)

text \<open>
  The base list keeps the deleted record, and the empty query shows it again: record 1
  is selected, \<^verbatim>\<open>handleDeleteClick\<close> runs, and record 1 is still in \<^verbatim>\<open>data\<close> and is in
  the visible list after \<^verbatim>\<open>handleSearchChange("")\<close>.
\<close>

theorem handleDeleteClick_base_keeps_deleted:
  "Set_has (selectedIds (hooks (run toLowerCase_ascii
      [(0, FetchDone [user1, user2]), (1, CheckBox 1)]))) (item_id user1) \<and>
   user1 \<in> set (data (handleDeleteClick (hooks (run toLowerCase_ascii
      [(0, FetchDone [user1, user2]), (1, CheckBox 1)])))) \<and>
   user1 \<in> set (searchedData (handleSearchChange toLowerCase_ascii []
      (handleDeleteClick (hooks (run toLowerCase_ascii
        [(0, FetchDone [user1, user2]), (1, CheckBox 1)])))))"
  by (simp add: run_defs eval_defs)

text \<open>
  The same on the component: record 1 is checked and deleted, then the input changes to
  \<^verbatim>\<open>a\<close> and back to the empty string, and records 1 and 2 are visible.
\<close>

lemma deleted_record_comes_back:
  "map item_id (searchedData (hooks (advance toLowerCase_ascii 5000 (run toLowerCase_ascii
      [(0, FetchDone [user1, user2]), (1, CheckBox 1), (2, DeleteClick),
       (1000, InputChange ''a''), (2000, InputChange [])])))) = [1, 2]"
  by (simp add: run_defs eval_defs)

text \<open>
  C9. With an empty selection \<^verbatim>\<open>handleDeleteClick\<close> changes nothing: the visible list is
  the same list, the selection is still empty, the whole state is the same; and running
  it a second time gives what running it once gave.
\<close>

theorem handleDeleteClick_empty_noop:
  "Set_size (selectedIds s) = 0 \<Longrightarrow>
   searchedData (handleDeleteClick s) = searchedData s \<and>
   selectedIds (handleDeleteClick s) = selectedIds s \<and>
   Set_size (selectedIds (handleDeleteClick s)) = 0 \<and>
   handleDeleteClick s = s \<and>
   handleDeleteClick (handleDeleteClick s) = handleDeleteClick s"
  by (simp add: handleDeleteClick_def Set_size_def Set_has_def)

text \<open>Right after the fetch nothing is selected, and the delete leaves both records.\<close>

theorem handleDeleteClick_empty_noop_witness:
  "Set_size (selectedIds (hooks (run toLowerCase_ascii [(0, FetchDone [user1, user2])]))) = 0 \<and>
   searchedData (handleDeleteClick (hooks (run toLowerCase_ascii [(0, FetchDone [user1, user2])]))) =
     [user1\<lparr>selected := Some False\<rparr>, user2\<lparr>selected := Some False\<rparr>]"
proof -
  have e: "Set_size (selectedIds (hooks (run toLowerCase_ascii [(0, FetchDone [user1, user2])]))) = 0"
    by (simp add: run_defs eval_defs)
  have v: "searchedData (hooks (run toLowerCase_ascii [(0, FetchDone [user1, user2])])) =
     [user1\<lparr>selected := Some False\<rparr>, user2\<lparr>selected := Some False\<rparr>]"
    by (simp add: run_defs eval_defs)
  show ?thesis using handleDeleteClick_empty_noop [OF e] e v by simp
qed

subsection \<open>Selection\<close>

lemma handleCheckBox_has:
  "Set_has (selectedIds (handleCheckBox i s)) x =
     (if x = i then \<not> Set_has (selectedIds s) x else Set_has (selectedIds s) x)"
  by (auto simp: handleCheckBox_def Set_has_def Set_add_def Set_delete_def Let_def)

lemma toggles_parity:
  "Set_has (selectedIds (foldl (\<lambda>s i. handleCheckBox i s) s ids)) x =
     (Set_has (selectedIds s) x \<noteq> odd (count_list ids x))"
  by (induction ids arbitrary: s) (auto simp: handleCheckBox_has)

text \<open>
  C4. After \<^verbatim>\<open>handleCheckBox\<close> has run for the ids of a list \<open>ids\<close>, one after the other,
  an id \<open>x\<close> is in the selection iff its membership at the start differs from the parity of
  the number of times it occurs in \<open>ids\<close>; from the empty selection it is in iff it occurs
  an odd number of times.
\<close>

theorem toggle_parity:
  "Set_has (selectedIds (foldl (\<lambda>s i. handleCheckBox i s) s ids)) x =
     (Set_has (selectedIds s) x \<noteq> odd (count_list ids x)) \<and>
   Set_has (selectedIds (foldl (\<lambda>s i. handleCheckBox i s) (s\<lparr>selectedIds := []\<rparr>) ids)) x =
     odd (count_list ids x)"
  using toggles_parity [of s ids x] toggles_parity [of "s\<lparr>selectedIds := []\<rparr>" ids x]
  by (simp add: Set_has_def)

lemma handleCheckBox_heap_eq:
  "handleCheckBox_heap i sel h =
     (length h, h @ [selectedIds (handleCheckBox i (s\<lparr>selectedIds := h ! sel\<rparr>))])"
  by (simp add: handleCheckBox_heap_def new_Set_def handleCheckBox_def Let_def)

text \<open>
  C8. \<^verbatim>\<open>handleCheckBox\<close> gives \<^verbatim>\<open>setSelectedIds\<close> a set object other than the one the
  state holds. The object the state held, like every object that was on the heap, is
  what it was before the call. The new object holds the set the handler computes on
  values: the toggled id has changed its membership and every other id has kept it.
\<close>

theorem handleCheckBox_fresh_set:
  "sel < length h \<Longrightarrow>
   fst (handleCheckBox_heap i sel h) \<noteq> sel \<and>
   snd (handleCheckBox_heap i sel h) ! sel = h ! sel \<and>
   take (length h) (snd (handleCheckBox_heap i sel h)) = h \<and>
   snd (handleCheckBox_heap i sel h) ! fst (handleCheckBox_heap i sel h) =
     selectedIds (handleCheckBox i (s\<lparr>selectedIds := h ! sel\<rparr>)) \<and>
   Set_has (snd (handleCheckBox_heap i sel h) ! fst (handleCheckBox_heap i sel h)) x =
     (if x = i then \<not> Set_has (h ! sel) x else Set_has (h ! sel) x)"
  using handleCheckBox_has [of i "s\<lparr>selectedIds := h ! sel\<rparr>" x]
  by (simp add: handleCheckBox_heap_eq [of i sel h s] nth_append)

text \<open>
  The selection \<open>{1, 2, 3}\<close> at address 0: toggling 2 allocates \<open>{1, 3}\<close> at address 1,
  toggling 5 allocates \<open>{1, 2, 3, 5}\<close>, and address 0 still holds \<open>{1, 2, 3}\<close>.
\<close>

theorem handleCheckBox_fresh_set_witness:
  "(0::nat) < length [[1, 2, 3 :: int]] \<and>
   handleCheckBox_heap 2 0 [[1, 2, 3]] = (1, [[1, 2, 3], [1, 3]]) \<and>
   handleCheckBox_heap 5 0 [[1, 2, 3]] = (1, [[1, 2, 3], [1, 2, 3, 5]]) \<and>
   Set_has (snd (handleCheckBox_heap 2 0 [[1, 2, 3]]) ! fst (handleCheckBox_heap 2 0 [[1, 2, 3]])) 3"
proof -
  have l: "(0::nat) < length [[1, 2, 3 :: int]]" by simp
  have e: "handleCheckBox_heap 2 0 [[1, 2, 3]] = (1, [[1, 2, 3], [1, 3]])"
    "handleCheckBox_heap 5 0 [[1, 2, 3]] = (1, [[1, 2, 3], [1, 2, 3, 5]])"
    by (simp_all add: handleCheckBox_heap_def new_Set_def Set_has_def Set_add_def Set_delete_def)
  show ?thesis
    using handleCheckBox_fresh_set [OF l, of 2 init_state 3] by (simp add: e eval_defs)
qed

subsection \<open>The delete control\<close>

lemma step_flag:
  "showDelete s = (0 < Set_size (selectedIds s)) \<Longrightarrow>
   showDelete (step ev s) = (0 < Set_size (selectedIds (step ev s)))"
  by (cases ev) (simp_all add: step_def frames_def showDeleteEffect_def callAPI_def Let_def)

text \<open>A timer that runs sets \<^verbatim>\<open>searchedData\<close> only.\<close>

lemma fire_selection:
  "showDelete (hooks (fire lc t R)) = showDelete (hooks R) \<and>
   selectedIds (hooks (fire lc t R)) = selectedIds (hooks R)"
  by (simp add: fire_def render_def split: prod.split)

lemma fires_selection:
  "showDelete (hooks (foldl (\<lambda>R t. fire lc t R) R ts)) = showDelete (hooks R) \<and>
   selectedIds (hooks (foldl (\<lambda>R t. fire lc t R) R ts)) = selectedIds (hooks R)"
  by (induction ts arbitrary: R) (simp_all add: fire_selection)

lemma advance_selection:
  "showDelete (hooks (advance lc now R)) = showDelete (hooks R) \<and>
   selectedIds (hooks (advance lc now R)) = selectedIds (hooks R)"
  by (simp add: advance_def fires_selection)

lemma act_flag:
  "showDelete (hooks R) = (0 < Set_size (selectedIds (hooks R))) \<Longrightarrow>
   showDelete (hooks (act now ev R)) = (0 < Set_size (selectedIds (hooks (act now ev R))))"
  by (cases ev)
    (simp_all add: step_flag render_def handleInputChange_def timer_defs Let_def split: prod.split)

lemma run_flag:
  "showDelete (hooks (run lc evs)) = (0 < Set_size (selectedIds (hooks (run lc evs))))"
proof (induction evs rule: rev_induct)
  case Nil
  show ?case
    by (simp add: run_def rt_init_def mounted_def init_state_def showDeleteEffect_def Set_size_def)
next
  case (snoc e evs)
  then have "showDelete (hooks (advance lc (fst e) (run lc evs))) =
      (0 < Set_size (selectedIds (hooks (advance lc (fst e) (run lc evs)))))"
    by (simp add: advance_selection)
  then show ?case unfolding run_snoc by (rule act_flag)
qed

text \<open>
  C5, as the code has it. Once the effect of an event has run, that is, in the state
  after the first render, after every list of timed events and after any time has passed
  since, \<^verbatim>\<open>showDelete\<close> is true iff the selection has an element.
\<close>

theorem showDelete_settled:
  "showDelete (hooks (run lc evs)) = (0 < Set_size (selectedIds (hooks (run lc evs)))) \<and>
   showDelete (hooks (advance lc now (run lc evs))) =
     (0 < Set_size (selectedIds (hooks (advance lc now (run lc evs)))))"
  using run_flag [of lc evs] by (simp add: advance_selection)

text \<open>
  The render between the handler and the effect disagrees: after the first click on the
  checkbox of record 1 the selection has one element and \<^verbatim>\<open>showDelete\<close> is still false.
\<close>

theorem showDelete_frame_disagrees:
  "\<not> (showDelete (hd (frames (CheckBox 1)
          (hooks (run toLowerCase_ascii [(0, FetchDone [user1, user2])])))) =
       (0 < Set_size (selectedIds (hd (frames (CheckBox 1)
          (hooks (run toLowerCase_ascii [(0, FetchDone [user1, user2])])))))))"
  by (simp add: run_defs eval_defs)
subsection \<open>The fetch\<close>

lemma forEach_selected_fresh:
  "distinct as \<Longrightarrow> \<forall>a \<in> set as. a < length h \<Longrightarrow>
   forEach_selected as h =
     map (\<lambda>a. if a \<in> set as then (h ! a)\<lparr>selected := Some False\<rparr> else h ! a) [0 ..< length h]"
proof (induction as arbitrary: h)
  case Nil
  show ?case by (simp add: map_nth)
next
  case (Cons a as)
  let ?h = "h[a := (h ! a)\<lparr>selected := Some False\<rparr>]"
  have "forEach_selected as ?h =
     map (\<lambda>b. if b \<in> set as then (?h ! b)\<lparr>selected := Some False\<rparr> else ?h ! b)
       [0 ..< length ?h]"
    using Cons.prems by (intro Cons.IH) auto
  also have "\<dots> =
     map (\<lambda>b. if b \<in> set (a # as) then (h ! b)\<lparr>selected := Some False\<rparr> else h ! b)
       [0 ..< length h]"
    using Cons.prems by (auto simp: nth_list_update)
  finally show ?case by simp
qed

lemma callAPI_heap_eq:
  assumes "\<forall>r \<in> set result. r < length h"
  shows "callAPI_heap result h =
     (result, [length h ..< length h + length result],
      h @ map (\<lambda>r. (h ! r)\<lparr>selected := Some False\<rparr>) result)"
proof -
  let ?c = "[length h ..< length h + length result]"
  let ?h1 = "h @ map (\<lambda>r. h ! r) result"
  have "forEach_selected ?c ?h1 =
     map (\<lambda>a. if a \<in> set ?c then (?h1 ! a)\<lparr>selected := Some False\<rparr> else ?h1 ! a)
       [0 ..< length ?h1]"
    by (rule forEach_selected_fresh) auto
  also have "\<dots> = h @ map (\<lambda>r. (h ! r)\<lparr>selected := Some False\<rparr>) result"
    by (rule nth_equalityI) (auto simp: nth_append)
  finally show ?thesis
    by (simp add: callAPI_heap_def JSON_copy_def)
qed

lemma map_nth_fresh:
  "map ((!) (h @ xs)) [length h ..< length h + length xs] = xs"
  by (rule nth_equalityI) (simp_all add: nth_append)

lemma map_nth_old:
  "\<forall>r \<in> set rs. r < length h \<Longrightarrow> map ((!) (h @ xs)) rs = map ((!) h) rs"
  by (simp add: nth_append)

text \<open>
  C10. When the fetch has returned the array \<open>result\<close> of objects on the heap \<open>h\<close>,
  \<^verbatim>\<open>callAPI\<close> gives \<^verbatim>\<open>setData\<close> that array, whose objects are what they were, and gives
  \<^verbatim>\<open>setSearchedData\<close> an array \<open>c\<close> of objects none of which is an object of \<open>result\<close>.
  The objects of \<open>c\<close> are those of \<open>result\<close> with \<^verbatim>\<open>selected\<close> set to false, in the same
  order, so the two lists agree on \<^verbatim>\<open>id\<close>, \<^verbatim>\<open>username\<close> and \<^verbatim>\<open>email\<close>; and where the
  fetched object has no property \<^verbatim>\<open>selected\<close>, the visible record differs from the base
  record. These are the lists of the handler on values.
\<close>

theorem callAPI_deep_copy:
  assumes "\<forall>r \<in> set result. r < length h"
    and "callAPI_heap result h = (d, c, h')"
  shows "d = result \<and>
    map ((!) h') d = map ((!) h) result \<and>
    data (callAPI (map ((!) h) result) s) = map ((!) h') d \<and>
    searchedData (callAPI (map ((!) h) result) s) = map ((!) h') c \<and>
    (\<forall>a \<in> set c. a \<notin> set result) \<and>
    map ((!) h') c = map (\<lambda>it. it\<lparr>selected := Some False\<rparr>) (map ((!) h) result) \<and>
    map item_id (map ((!) h') c) = map item_id (map ((!) h') d) \<and>
    map username (map ((!) h') c) = map username (map ((!) h') d) \<and>
    map email (map ((!) h') c) = map email (map ((!) h') d) \<and>
    (\<forall>k < length result. selected (h' ! (d ! k)) = None \<longrightarrow> h' ! (c ! k) \<noteq> h' ! (d ! k))"
proof -
  let ?new = "map (\<lambda>r. (h ! r)\<lparr>selected := Some False\<rparr>) result"
  have "(d, c, h') = (result, [length h ..< length h + length result], h @ ?new)"
    using assms(2) [symmetric] callAPI_heap_eq [OF assms(1)] by (rule trans)
  then have d: "d = result" and c: "c = [length h ..< length h + length result]"
    and h': "h' = h @ ?new"
    by blast+
  have old: "map ((!) h') d = map ((!) h) result"
    unfolding d h' using assms(1) by (rule map_nth_old)
  have new: "map ((!) h') c = ?new"
    unfolding c h' using map_nth_fresh [of h ?new] by simp
  have fresh: "\<forall>a \<in> set c. a \<notin> set result"
    using assms(1) by (auto simp: c)
  have copy: "map ((!) h') c = map (\<lambda>it. it\<lparr>selected := Some False\<rparr>) (map ((!) h) result)"
    by (simp add: new)
  have differ:
    "\<forall>k < length result. selected (h' ! (d ! k)) = None \<longrightarrow> h' ! (c ! k) \<noteq> h' ! (d ! k)"
  proof (intro allI impI)
    fix k assume k: "k < length result" and none: "selected (h' ! (d ! k)) = None"
    have "h' ! (c ! k) = map ((!) h') c ! k" using k by (simp add: c)
    also have "\<dots> = (h ! (result ! k))\<lparr>selected := Some False\<rparr>" using k by (simp add: new)
    finally have "selected (h' ! (c ! k)) = Some False" by simp
    with none show "h' ! (c ! k) \<noteq> h' ! (d ! k)" by auto
  qed
  have ids: "map item_id (map ((!) h') c) = map item_id (map ((!) h') d)"
    "map username (map ((!) h') c) = map username (map ((!) h') d)"
    "map email (map ((!) h') c) = map email (map ((!) h') d)"
    by (simp_all add: copy old)
  have val: "data (callAPI (map ((!) h) result) s) = map ((!) h') d"
    "searchedData (callAPI (map ((!) h) result) s) = map ((!) h') c"
    by (simp_all add: callAPI_def old copy)
  from d old val fresh copy ids differ show ?thesis by blast
qed

text \<open>
  The two sample records at addresses 0 and 1: the copies are allocated at 2 and 3 and
  carry \<^verbatim>\<open>selected = false\<close>; the fetched objects have no such property.
\<close>

theorem callAPI_deep_copy_witness:
  "callAPI_heap [0, 1] [user1, user2] =
     ([0, 1], [2, 3],
      [user1, user2, user1\<lparr>selected := Some False\<rparr>, user2\<lparr>selected := Some False\<rparr>]) \<and>
   selected user1 = None \<and> user1\<lparr>selected := Some False\<rparr> \<noteq> user1 \<and>
   searchedData (callAPI [user1, user2] init_state) =
     [user1\<lparr>selected := Some False\<rparr>, user2\<lparr>selected := Some False\<rparr>]"
proof -
  have v: "\<forall>r \<in> set [0, 1 :: nat]. r < length [user1, user2]" by simp
  have e: "callAPI_heap [0, 1] [user1, user2] =
     ([0, 1], [2, 3],
      [user1, user2, user1\<lparr>selected := Some False\<rparr>, user2\<lparr>selected := Some False\<rparr>])"
    by (simp add: callAPI_heap_def JSON_copy_def upt_rec)
  have n: "selected user1 = None" by (simp add: user1_def)
  from callAPI_deep_copy [OF v e, of init_state] n e
  show ?thesis by (auto simp: callAPI_def)
qed

subsection \<open>Debounce\<close>

text \<open>
  One function returned by \<^verbatim>\<open>debounce\<close>, kept and called several times: calls that
  follow each other by less than the delay leave one timer pending, that of the last call.
\<close>

lemma call_dinit: "one_pending delay (call delay (t, a) dinit) t a"
  by (simp add: one_pending_def call_def dinit_def tick_def timer_defs)

lemma call_one_pending:
  assumes "one_pending delay D t a" and "t \<le> t'" and "t' < t + delay"
  shows "one_pending delay (call delay (t', a') D) t' a'"
  using assms
  by (auto simp: one_pending_def call_def tick_def timer_defs)

lemma calls_one_pending:
  "one_pending delay D t a \<Longrightarrow> burst delay ((t, a) # cs) \<Longrightarrow>
   one_pending delay (calls delay cs D) (fst (last ((t, a) # cs))) (snd (last ((t, a) # cs)))"
proof (induction cs arbitrary: D t a)
  case Nil
  then show ?case by (simp add: calls_def)
next
  case (Cons c cs)
  obtain t' a' where c: "c = (t', a')" by (cases c)
  from Cons.prems c have "one_pending delay (call delay (t', a') D) t' a'"
    by (auto intro: call_one_pending)
  moreover from Cons.prems c have "burst delay ((t', a') # cs)" by simp
  ultimately have "one_pending delay (calls delay cs (call delay (t', a') D))
      (fst (last ((t', a') # cs))) (snd (last ((t', a') # cs)))"
    by (rule Cons.IH)
  then show ?case by (simp add: calls_def c)
qed

lemma settle_one_pending:
  "one_pending delay D t a \<Longrightarrow> fired (settle D) = [(t + delay, a)]"
  by (auto simp: one_pending_def settle_def)

lemma debounce_burst:
  assumes "cs \<noteq> []" and "burst delay cs"
  shows "fired (settle (calls delay cs dinit)) = [(fst (last cs) + delay, snd (last cs))]"
proof -
  from assms(1) obtain t a cs' where cs: "cs = (t, a) # cs'"
    by (cases cs) auto
  have "one_pending delay (calls delay cs' (call delay (t, a) dinit))
      (fst (last ((t, a) # cs'))) (snd (last ((t, a) # cs')))"
    using call_dinit assms(2) unfolding cs by (rule calls_one_pending)
  then have "one_pending delay (calls delay cs dinit) (fst (last cs)) (snd (last cs))"
    by (simp add: cs calls_def)
  then show ?thesis by (rule settle_one_pending)
qed

lemma debounce_apart:
  assumes "t1 + delay \<le> t2"
  shows "fired (settle (calls delay [(t1, a1), (t2, a2)] dinit)) =
     [(t1 + delay, a1), (t2 + delay, a2)]"
  using assms
  by (simp add: calls_def call_def tick_def settle_def dinit_def timer_defs)

lemma debounce_a_ab:
  "fired (settle (calls 300 [(0, ''a''), (100, ''ab'')] dinit)) = [(400, ''ab'')]"
  using debounce_burst [of "[(0, ''a''), (100, ''ab'')]" 300] by simp

lemma debounce_a_wait_b:
  "fired (settle (calls 300 [(0, ''a''), (500, ''b'')] dinit)) = [(300, ''a''), (800, ''b'')]"
  using debounce_apart [of 0 300 500 "''a''" "''b''"] by simp

text \<open>
  Inside \<^verbatim>\<open>App\<close> every change of the input renders the component again, and the next
  change calls the debounced function of the new render, which cancels nothing.
\<close>

lemma clearTimeout_empty [simp]:
  "timers L = [] \<Longrightarrow> timers (clearTimeout c L) = []"
  by (cases c) simp_all

lemma typing_two_changes:
  assumes "timers (pending R) = []" and "v1 \<noteq> searchInput (hooks R)" and "v2 \<noteq> v1"
    and "t1 \<le> t2" and "t2 < t1 + 300"
  shows "executions (advance lc (t2 + 300)
      (act t2 (InputChange v2) (advance lc t2 (act t1 (InputChange v1) R)))) =
     executions R @ [(t1 + 300, v1), (t2 + 300, v2)]"
  using assms
  by (simp add: advance_def handleInputChange_def fire_def render_def timer_defs Let_def)

text \<open>
  C3, on the component. The input changes to \<^verbatim>\<open>a\<close> at 0 ms and to \<^verbatim>\<open>ab\<close> at 100 ms:
  \<^verbatim>\<open>handleSearchChange\<close> runs twice, with \<^verbatim>\<open>a\<close> at 300 ms and with \<^verbatim>\<open>ab\<close> at 400 ms,
  where the specification has one run, with \<^verbatim>\<open>ab\<close>.
\<close>

theorem typing_runs_filter_twice:
  "executions (advance toLowerCase_ascii 1000 (run toLowerCase_ascii
      [(0, FetchDone [user1, user2]), (0, InputChange ''a''), (100, InputChange ''ab'')])) =
     [(300, ''a''), (400, ''ab'')]"
  by (simp add: run_defs eval_defs)

end
